theory Spec2Isabelle
  imports Complex_Main "HOL-Library.Word"
begin

section \<open>Python primitives used by the two scripts\<close>

text \<open>
  \<open>range(0, stop, 2)\<close>: the even numbers \<open>0, 2, 4, ...\<close> strictly below \<open>stop\<close>
  (none when \<open>stop \<le> 0\<close>). The scripts call it with \<open>stop = len(data) - 1\<close>, which is
  \<open>-1\<close> for the empty string, so \<open>stop\<close> is an integer.
\<close>

definition py_range2 :: "int \<Rightarrow> nat list" where
  "py_range2 stop = map (\<lambda>k. 2 * k) [0 ..< nat ((stop + 1) div 2)]"

text \<open>\<open>xs[i:j]\<close> for indices \<open>0 \<le> i \<le> j\<close>; a slice never raises, it is cut at the end.\<close>

definition py_slice :: "'a list \<Rightarrow> nat \<Rightarrow> nat \<Rightarrow> 'a list" where
  "py_slice xs i j = take (j - i) (drop i xs)"

text \<open>
  \<open>xs[:k]\<close> for an arbitrary integer \<open>k\<close>: a negative \<open>k\<close> counts from the end, so
  \<open>xs[:-1]\<close> is \<open>xs\<close> without its last element.
\<close>

definition py_slice_to :: "'a list \<Rightarrow> int \<Rightarrow> 'a list" where
  "py_slice_to xs k = (if 0 \<le> k then take (nat k) xs else take (length xs - nat (- k)) xs)"

section \<open>DiffProcessingTechniques.py\<close>

text \<open>
  Each processor keeps a list \<open>result\<close> of one-character strings, visits the indices
  \<open>range(0, len(data) - 1, 2)\<close>, reads \<open>pair = data[i:i+2]\<close> and returns
  \<open>''.join(result)\<close>. The loop body is a function from the list built so far and the
  index to the new list; the loop is a left fold over the indices.
\<close>

definition vn_step :: "string \<Rightarrow> string list \<Rightarrow> nat \<Rightarrow> string list" where
  "vn_step data result i =
     (let pair = py_slice data i (i + 2)
      in if pair = ''10'' then result @ [''0'']
         else if pair = ''01'' then result @ [''1'']
         else result)"

definition vonNeumannProcessing :: "string \<Rightarrow> string" where
  "vonNeumannProcessing data =
     concat (foldl (vn_step data) [] (py_range2 (int (length data) - 1)))"

definition xor_step :: "string \<Rightarrow> string list \<Rightarrow> nat \<Rightarrow> string list" where
  "xor_step data result i =
     (let pair = py_slice data i (i + 2)
      in if pair = ''01'' \<or> pair = ''10'' then result @ [''1'']
         else result @ [''0''])"

definition xorProcessing :: "string \<Rightarrow> string" where
  "xorProcessing data =
     concat (foldl (xor_step data) [] (py_range2 (int (length data) - 1)))"

definition sr_step :: "string \<Rightarrow> string list \<Rightarrow> nat \<Rightarrow> string list" where
  "sr_step data result i =
     (let pair = py_slice data i (i + 2)
      in if pair = ''11'' then result @ [''1'']
         else if pair = ''00'' then result @ [''0'']
         else result)"

definition residualProcessing :: "string \<Rightarrow> string" where
  "residualProcessing data =
     concat (foldl (sr_step data) [] (py_range2 (int (length data) - 1)))"

text \<open>
  \<open>iteratedVonNeumann\<close> first fills the three placeholders \<open>svn_bit\<close>, \<open>sxor_bit\<close>,
  \<open>sr_bit\<close> (\<open>None\<close> in Python, \<open>None\<close> here) from the pair, in the order of its
  \<open>if\<close>/\<open>elif\<close> chain, which has no \<open>else\<close>; then it appends those that are set.
\<close>

definition ivn_bits :: "string \<Rightarrow> string option \<times> string option \<times> string option" where
  "ivn_bits pair =
     (if pair = ''00'' then (None, Some ''0'', Some ''0'')
      else if pair = ''01'' then (Some ''1'', Some ''1'', None)
      else if pair = ''10'' then (Some ''0'', Some ''1'', None)
      else if pair = ''11'' then (None, Some ''0'', Some ''1'')
      else (None, None, None))"

definition append_if_set :: "string list \<Rightarrow> string option \<Rightarrow> string list" where
  "append_if_set cascaded_result placeholder =
     (case placeholder of None \<Rightarrow> cascaded_result | Some b \<Rightarrow> cascaded_result @ [b])"

definition ivn_step :: "string \<Rightarrow> string list \<Rightarrow> nat \<Rightarrow> string list" where
  "ivn_step data cascaded_result i =
     (case ivn_bits (py_slice data i (i + 2)) of
        (svn_bit, sxor_bit, sr_bit) \<Rightarrow>
          append_if_set (append_if_set (append_if_set cascaded_result svn_bit) sxor_bit) sr_bit)"

definition iteratedVonNeumann :: "string \<Rightarrow> string" where
  "iteratedVonNeumann data =
     concat (foldl (ivn_step data) [] (py_range2 (int (length data) - 1)))"

text \<open>An input bit sequence: every character is \<open>0\<close> or \<open>1\<close>.\<close>

definition is_bit :: "char \<Rightarrow> bool" where
  "is_bit c = (c = CHR ''0'' \<or> c = CHR ''1'')"

definition is_bits :: "string \<Rightarrow> bool" where
  "is_bits data = list_all is_bit data"

section \<open>trngMeasurementScriptV2.py\<close>

subsection \<open>The numpy operations of the callback\<close>

text \<open>
  \<open>np.diff(a)\<close> of a one-dimensional array: \<open>a[j+1] - a[j]\<close> for every \<open>j\<close> with
  \<open>j + 1 < len(a)\<close>; empty when \<open>a\<close> has fewer than two elements. The arrays it is
  applied to come from \<open>astype(int)\<close>, 64-bit integers holding 0 or 1, so the
  difference does not wrap.
\<close>

definition np_diff :: "int list \<Rightarrow> int list" where
  "np_diff a = map (\<lambda>(x, y). y - x) (zip a (tl a))"

text \<open>\<open>np.where(d == 1)[0]\<close>: the indices \<open>j\<close> with \<open>d[j] == 1\<close>, ascending.\<close>

definition np_where_eq1 :: "int list \<Rightarrow> nat list" where
  "np_where_eq1 d = filter (\<lambda>j. d ! j = 1) [0 ..< length d]"

text \<open>
  \<open>a[idxs]\<close> with an array of non-negative indices: the elements at these indices, in
  the order of \<open>idxs\<close>; numpy raises IndexError when an index is out of bounds.
\<close>

datatype py_error = IndexError

definition np_take :: "'a list \<Rightarrow> nat list \<Rightarrow> py_error + 'a list" where
  "np_take a idxs =
     (if list_all (\<lambda>j. j < length a) idxs then Inr (map (\<lambda>j. a ! j) idxs)
      else Inl IndexError)"

text \<open>
  \<open>np.array(buffer[:n], dtype=np.int16) * (VOLTAGE_RANGE / 32767)\<close>: the signed value of
  every 16-bit sample times the scale. Voltages are real numbers here; the rounding of
  the floating-point product is not part of the model.
\<close>

definition to_volts :: "real \<Rightarrow> 16 word list \<Rightarrow> real list" where
  "to_volts VOLTAGE_RANGE raw = map (\<lambda>w. real_of_int (sint w) * (VOLTAGE_RANGE / 32767)) raw"

text \<open>\<open>(volts >= threshold).astype(int)\<close>\<close>

definition binarize :: "real \<Rightarrow> real list \<Rightarrow> int list" where
  "binarize threshold volts = map (\<lambda>v. if threshold \<le> v then 1 else 0) volts"

text \<open>\<open>str(b)\<close> for a bit \<open>b\<close> of a binarized signal, which is 0 or 1.\<close>

definition py_str :: "int \<Rightarrow> string" where
  "py_str b = (if b = 1 then ''1'' else ''0'')"

subsection \<open>streamingCallback\<close>

text \<open>
  The globals the callback and \<open>collectData\<close> share. \<open>outputFile\<close> is the content of the
  file named \<open>outputFilename\<close>, which the callback opens in append mode.
\<close>

record globals =
  bufferClock :: "16 word list"
  bufferData :: "16 word list"
  samplesCollected :: int
  outputFile :: string

text \<open>
  Lines 151 and 152 of the script:
  \<open>risingEdges = np.where(np.diff(clkBinary) == 1)[0]\<close> and
  \<open>sampledBits = dataBinary[risingEdges]\<close>.
\<close>

definition risingEdges :: "int list \<Rightarrow> nat list" where
  "risingEdges clkBinary = np_where_eq1 (np_diff clkBinary)"

definition sampledBits :: "int list \<Rightarrow> int list \<Rightarrow> py_error + int list" where
  "sampledBits clkBinary dataBinary = np_take dataBinary (risingEdges clkBinary)"

text \<open>
  \<open>main\<close> binds the keyword arguments with \<open>functools.partial\<close>; they come first here,
  so that a partial application is the function the driver calls with \<open>noOfSamples\<close> and
  \<open>overflow\<close>. The arguments the body never reads (\<open>handle\<close>, \<open>startIndex\<close>,
  \<open>triggerAt\<close>, \<open>triggered\<close>, \<open>autoStop\<close>, \<open>pParameter\<close>) are left out, and so is the
  message printed in the overflow branch.
\<close>

definition streamingCallback ::
  "real \<Rightarrow> real \<Rightarrow> real \<Rightarrow> int \<Rightarrow> string \<Rightarrow> bool \<Rightarrow> int \<Rightarrow> int \<Rightarrow> globals
     \<Rightarrow> py_error + globals" where
  "streamingCallback thresholdClock thresholdData VOLTAGE_RANGE totalSamples captureMode
       useX10Probe noOfSamples overflow g =
     (if overflow = 0 then
        let clkData = to_volts VOLTAGE_RANGE (py_slice_to (bufferClock g) noOfSamples);
            clkBinary = binarize thresholdClock clkData;
            dataData = to_volts VOLTAGE_RANGE (py_slice_to (bufferData g) noOfSamples);
            dataData10 = (if useX10Probe then map (\<lambda>v. v * 10) dataData else dataData);
            dataBinary = binarize thresholdData dataData10
        in case sampledBits clkBinary dataBinary of
             Inl e \<Rightarrow> Inl e
           | Inr bits \<Rightarrow>
               let trimmed =
                     (if captureMode = ''samples''
                      then py_slice_to bits (totalSamples - samplesCollected g)
                      else bits)
               in Inr (g\<lparr>outputFile := outputFile g @ concat (map py_str trimmed),
                         samplesCollected := samplesCollected g + int (length trimmed)\<rparr>)
      else Inr g)"

subsection \<open>collectData\<close>

text \<open>The local variables of \<open>collectData\<close> that its loop updates.\<close>

record loop_state =
  lastStatusUpdate :: int
  lastTimeUpdate :: real
  lastSignalTime :: real

text \<open>
  Lines 196 to 218: the stopping conditions of one pass of the \<open>while True\<close> loop.
  \<open>time_elapsed\<close> is the clock read at line 196, \<open>time_check\<close> the clock read at
  line 216. The result is whether the loop breaks, with the updated locals. The status
  lines printed on the way are left out.
\<close>

definition stopConditions ::
  "string \<Rightarrow> real \<Rightarrow> int \<Rightarrow> real \<Rightarrow> int \<Rightarrow> real \<Rightarrow> real \<Rightarrow> real \<Rightarrow> real \<Rightarrow> int
     \<Rightarrow> loop_state \<Rightarrow> bool \<times> loop_state" where
  "stopConditions mode durationSeconds totalSamples no_signal_duration_threshold
       statusInterval timeStatusInterval startTime time_elapsed time_check collected ls =
     (let elapsedTime = time_elapsed - startTime
      in if mode = ''time'' then
           (if durationSeconds \<le> elapsedTime then (True, ls)
            else if timeStatusInterval \<le> elapsedTime - lastTimeUpdate ls
              then (False, ls\<lparr>lastTimeUpdate := elapsedTime\<rparr>)
              else (False, ls))
         else if mode = ''samples'' then
           (if totalSamples \<le> collected then (True, ls)
            else if lastStatusUpdate ls + statusInterval \<le> collected
              then (False, ls\<lparr>lastStatusUpdate := collected\<rparr>)
              else (False, ls))
         else if no_signal_duration_threshold \<le> time_check - lastSignalTime ls
           then (True, ls)
           else (False, ls))"

text \<open>
  What the driver does during one call of \<open>ps4000aGetStreamingLatestValues\<close>: it may
  fill the two registered buffers and call the callback, any number of times. One such
  delivery is the new content of the buffers and the two arguments the callback reads.
\<close>

record delivery =
  new_bufferClock :: "16 word list"
  new_bufferData :: "16 word list"
  cb_noOfSamples :: int
  cb_overflow :: int

text \<open>
  The callback is a ctypes callback: an exception raised inside it is reported on
  stderr and does not reach \<open>collectData\<close>. The callback raises before it writes, so
  the globals are then as the driver left them.
\<close>

definition deliver ::
  "(int \<Rightarrow> int \<Rightarrow> globals \<Rightarrow> py_error + globals) \<Rightarrow> globals \<Rightarrow> delivery \<Rightarrow> globals" where
  "deliver cFuncPtrToCallbackFunc g d =
     (let g1 = g\<lparr>bufferClock := new_bufferClock d, bufferData := new_bufferData d\<rparr>
      in case cFuncPtrToCallbackFunc (cb_noOfSamples d) (cb_overflow d) g1 of
           Inl e \<Rightarrow> g1
         | Inr g2 \<Rightarrow> g2)"

text \<open>One pass of the loop reads the clock up to three times (lines 194, 196, 216).\<close>

record poll =
  deliveries :: "delivery list"
  time_signal :: real
  time_elapsed :: real
  time_check :: real

text \<open>Line 193: not both buffers are all zero.\<close>

definition signalDetected :: "globals \<Rightarrow> bool" where
  "signalDetected g =
     (\<not> (list_all (\<lambda>w. w = 0) (bufferClock g) \<and> list_all (\<lambda>w. w = 0) (bufferData g)))"

definition loopPass ::
  "(int \<Rightarrow> int \<Rightarrow> globals \<Rightarrow> py_error + globals) \<Rightarrow> string \<Rightarrow> real \<Rightarrow> int \<Rightarrow> real \<Rightarrow> int
     \<Rightarrow> real \<Rightarrow> real \<Rightarrow> poll \<Rightarrow> loop_state \<Rightarrow> globals \<Rightarrow> bool \<times> loop_state \<times> globals" where
  "loopPass cFuncPtrToCallbackFunc mode durationSeconds totalSamples
       no_signal_duration_threshold statusInterval timeStatusInterval startTime p ls g =
     (let g1 = foldl (deliver cFuncPtrToCallbackFunc) g (deliveries p);
          ls1 = (if signalDetected g1 then ls\<lparr>lastSignalTime := time_signal p\<rparr> else ls)
      in case stopConditions mode durationSeconds totalSamples no_signal_duration_threshold
                statusInterval timeStatusInterval startTime (time_elapsed p) (time_check p)
                (samplesCollected g1) ls1 of
           (stop, ls2) \<Rightarrow> (stop, ls2, g1))"

text \<open>
  The \<open>while True\<close> loop over the passes of a finite trace of the environment: it has
  stopped (\<open>break\<close>) or it is still running when the trace ends.
\<close>

datatype run = Stopped globals | Running loop_state globals

fun collectLoop ::
  "(int \<Rightarrow> int \<Rightarrow> globals \<Rightarrow> py_error + globals) \<Rightarrow> string \<Rightarrow> real \<Rightarrow> int \<Rightarrow> real \<Rightarrow> int
     \<Rightarrow> real \<Rightarrow> real \<Rightarrow> poll list \<Rightarrow> loop_state \<Rightarrow> globals \<Rightarrow> run" where
  "collectLoop cb mode durationSeconds totalSamples no_signal statusInterval
       timeStatusInterval startTime [] ls g = Running ls g"
| "collectLoop cb mode durationSeconds totalSamples no_signal statusInterval
       timeStatusInterval startTime (p # ps) ls g =
     (case loopPass cb mode durationSeconds totalSamples no_signal statusInterval
             timeStatusInterval startTime p ls g of
        (stop, ls', g') \<Rightarrow>
          if stop then Stopped g'
          else collectLoop cb mode durationSeconds totalSamples no_signal statusInterval
                 timeStatusInterval startTime ps ls' g')"

text \<open>
  \<open>collectData\<close>: \<open>open(outputFilename, "w")\<close> empties the file, the two clock reads
  before the loop give \<open>startTime\<close> and the first \<open>lastSignalTime\<close>.
\<close>

definition collectData ::
  "(int \<Rightarrow> int \<Rightarrow> globals \<Rightarrow> py_error + globals) \<Rightarrow> string \<Rightarrow> real \<Rightarrow> int \<Rightarrow> real \<Rightarrow> int
     \<Rightarrow> real \<Rightarrow> real \<Rightarrow> real \<Rightarrow> poll list \<Rightarrow> globals \<Rightarrow> run" where
  "collectData cFuncPtrToCallbackFunc mode durationSeconds totalSamples
       no_signal_duration_threshold statusInterval timeStatusInterval startTime
       firstSignalTime polls g =
     collectLoop cFuncPtrToCallbackFunc mode durationSeconds totalSamples
       no_signal_duration_threshold statusInterval timeStatusInterval startTime polls
       \<lparr>lastStatusUpdate = 0, lastTimeUpdate = 0, lastSignalTime = firstSignalTime\<rparr>
       (g\<lparr>outputFile := []\<rparr>)"

text \<open>The globals of the run of a session.\<close>

fun globals_of :: "run \<Rightarrow> globals" where
  "globals_of (Stopped g) = g"
| "globals_of (Running ls g) = g"

text \<open>The invariant of a session in the mode \<open>samples\<close>.\<close>

definition within_cap :: "int \<Rightarrow> globals \<Rightarrow> bool" where
  "within_cap totalSamples g =
     (samplesCollected g \<le> totalSamples \<and> int (length (outputFile g)) = samplesCollected g)"

subsection \<open>The pairs a loop visits\<close>

text \<open>
  The non-overlapping adjacent pairs of a string, front to back; a last character
  without a partner is not in any pair.
\<close>

fun pairs_of :: "string \<Rightarrow> string list" where
  "pairs_of (a # b # rest) = [a, b] # pairs_of rest"
| "pairs_of _ = []"

subsection \<open>What each loop appends for one pair\<close>

definition vn_rule :: "string \<Rightarrow> string list" where
  "vn_rule pair = (if pair = ''10'' then [''0''] else if pair = ''01'' then [''1''] else [])"

definition xor_rule :: "string \<Rightarrow> string list" where
  "xor_rule pair = (if pair = ''01'' \<or> pair = ''10'' then [''1''] else [''0''])"

definition sr_rule :: "string \<Rightarrow> string list" where
  "sr_rule pair = (if pair = ''11'' then [''1''] else if pair = ''00'' then [''0''] else [])"

definition ivn_rule :: "string \<Rightarrow> string list" where
  "ivn_rule pair =
     (case ivn_bits pair of
        (svn_bit, sxor_bit, sr_bit) \<Rightarrow>
          append_if_set (append_if_set (append_if_set [] svn_bit) sxor_bit) sr_bit)"

section \<open>Lemmas on the extractor loops\<close>

lemma py_range2_step:
  "py_range2 (int (length (a # b # rest)) - 1) =
     0 # map (\<lambda>i. i + 2) (py_range2 (int (length rest) - 1))"
proof -
  have n: "nat ((int (length (a # b # rest)) - 1 + 1) div 2) =
           Suc (nat ((int (length rest) - 1 + 1) div 2))"
    by simp
  show ?thesis
    unfolding py_range2_def n
    by (simp add: upt_conv_Cons map_Suc_upt [symmetric] del: upt_Suc)
qed

lemma visited_pairs:
  "map (\<lambda>i. py_slice data i (i + 2)) (py_range2 (int (length data) - 1)) = pairs_of data"
proof (induction data rule: pairs_of.induct)
  case (1 a b rest)
  have "map (\<lambda>i. py_slice (a # b # rest) i (i + 2)) (py_range2 (int (length (a # b # rest)) - 1))
        = [a, b] # map (\<lambda>i. py_slice rest i (i + 2)) (py_range2 (int (length rest) - 1))"
    unfolding py_range2_step by (simp add: py_slice_def comp_def)
  with 1 show ?case by simp
qed (simp_all add: py_range2_def)

text \<open>A loop whose body appends \<open>g pair\<close> to the list collects \<open>g\<close> over the pairs.\<close>

lemma foldl_append_pairs:
  "foldl (\<lambda>result i. result @ g (py_slice data i (i + 2))) acc idxs =
     acc @ concat (map (\<lambda>i. g (py_slice data i (i + 2))) idxs)"
  by (induction idxs arbitrary: acc) simp_all

lemma loop_as_pairs:
  assumes "\<And>result i. step result i = result @ g (py_slice data i (i + 2))"
  shows "concat (foldl step [] (py_range2 (int (length data) - 1))) =
           concat (concat (map g (pairs_of data)))"
proof -
  have "step = (\<lambda>result i. result @ g (py_slice data i (i + 2)))"
    using assms by (intro ext) simp
  then have "foldl step [] (py_range2 (int (length data) - 1)) =
        concat (map (\<lambda>i. g (py_slice data i (i + 2))) (py_range2 (int (length data) - 1)))"
    by (simp only: foldl_append_pairs append_Nil)
  also have "\<dots> = concat (map g (map (\<lambda>i. py_slice data i (i + 2))
                                 (py_range2 (int (length data) - 1))))"
    by (simp only: map_map comp_def)
  finally show ?thesis by (simp only: visited_pairs)
qed

lemma append_if_set_append:
  "append_if_set (xs @ ys) placeholder = xs @ append_if_set ys placeholder"
  by (simp add: append_if_set_def split: option.split)

lemma ivn_step_rule:
  "ivn_step data cascaded_result i = cascaded_result @ ivn_rule (py_slice data i (i + 2))"
proof -
  obtain x y z where b: "ivn_bits (py_slice data i (i + 2)) = (x, y, z)"
    by (cases "ivn_bits (py_slice data i (i + 2))") auto
  have "append_if_set (append_if_set (append_if_set (cascaded_result @ []) x) y) z =
        cascaded_result @ append_if_set (append_if_set (append_if_set [] x) y) z"
    by (simp only: append_if_set_append)
  then show ?thesis
    unfolding ivn_step_def ivn_rule_def b by simp
qed

lemma vonNeumannProcessing_pairs:
  "vonNeumannProcessing data = concat (concat (map vn_rule (pairs_of data)))"
  unfolding vonNeumannProcessing_def
  by (rule loop_as_pairs) (simp add: vn_step_def vn_rule_def Let_def)

lemma xorProcessing_pairs:
  "xorProcessing data = concat (concat (map xor_rule (pairs_of data)))"
  unfolding xorProcessing_def
  by (rule loop_as_pairs) (simp add: xor_step_def xor_rule_def Let_def)

lemma residualProcessing_pairs:
  "residualProcessing data = concat (concat (map sr_rule (pairs_of data)))"
  unfolding residualProcessing_def
  by (rule loop_as_pairs) (simp add: sr_step_def sr_rule_def Let_def)

lemma iteratedVonNeumann_pairs:
  "iteratedVonNeumann data = concat (concat (map ivn_rule (pairs_of data)))"
  unfolding iteratedVonNeumann_def
  by (rule loop_as_pairs) (rule ivn_step_rule)

text \<open>The first pair of the input, then the rest of the input.\<close>

lemma vn_pair:
  "vonNeumannProcessing (a # b # rest) = concat (vn_rule [a, b]) @ vonNeumannProcessing rest"
  by (simp add: vonNeumannProcessing_pairs)

lemma xor_pair:
  "xorProcessing (a # b # rest) = concat (xor_rule [a, b]) @ xorProcessing rest"
  by (simp add: xorProcessing_pairs)

lemma sr_pair:
  "residualProcessing (a # b # rest) = concat (sr_rule [a, b]) @ residualProcessing rest"
  by (simp add: residualProcessing_pairs)

lemma ivn_pair:
  "iteratedVonNeumann (a # b # rest) = concat (ivn_rule [a, b]) @ iteratedVonNeumann rest"
  by (simp add: iteratedVonNeumann_pairs)

lemma vn_short: "vonNeumannProcessing [] = []" "vonNeumannProcessing [c] = []"
  by (simp_all add: vonNeumannProcessing_pairs)

lemma xor_short: "xorProcessing [] = []" "xorProcessing [c] = []"
  by (simp_all add: xorProcessing_pairs)

lemma sr_short: "residualProcessing [] = []" "residualProcessing [c] = []"
  by (simp_all add: residualProcessing_pairs)

lemma ivn_short: "iteratedVonNeumann [] = []" "iteratedVonNeumann [c] = []"
  by (simp_all add: iteratedVonNeumann_pairs)

text \<open>A last character without a partner is in no pair.\<close>

lemma pairs_of_trailing: "even (length data) \<Longrightarrow> pairs_of (data @ [c]) = pairs_of data"
  by (induction data rule: pairs_of.induct) simp_all

lemma length_xor_rule: "length (concat (xor_rule pair)) = 1"
  by (simp add: xor_rule_def)

lemma length_xorProcessing: "length (xorProcessing data) = length data div 2"
  by (induction data rule: pairs_of.induct) (simp_all add: xor_pair xor_short length_xor_rule)

lemma bit_pair_cases:
  assumes "is_bit a" "is_bit b"
  obtains "[a, b] = ''00''" | "[a, b] = ''01''" | "[a, b] = ''10''" | "[a, b] = ''11''"
  using assms by (auto simp: is_bit_def)

lemma bit_pair_lengths:
  assumes "is_bit a" "is_bit b"
  shows "length (concat (vn_rule [a, b])) + length (concat (sr_rule [a, b])) = 1"
    and "length (concat (ivn_rule [a, b])) = 2"
  using assms
  by (auto simp: is_bit_def vn_rule_def sr_rule_def ivn_rule_def ivn_bits_def append_if_set_def)

lemma length_vn_sr_le:
  "length (concat (vn_rule pair)) + length (concat (sr_rule pair)) \<le> 1"
  by (simp add: vn_rule_def sr_rule_def)

section \<open>The claims on DiffProcessingTechniques.py\<close>

text \<open>
  Outside bit sequences the four loops differ: for a pair that is none of \<open>00\<close>,
  \<open>01\<close>, \<open>10\<close>, \<open>11\<close> the cascade appends nothing, while \<open>xorProcessing\<close>
  appends \<open>0\<close>.
\<close>

lemma cascade_of_other_characters:
  "iteratedVonNeumann ''ab'' = [] \<and> xorProcessing ''ab'' = ''0''"
  by (simp add: ivn_pair ivn_short ivn_rule_def ivn_bits_def append_if_set_def
        xor_pair xor_short xor_rule_def)

text \<open>
  Claim C5. For every input bit sequence, the length of the cascade
  \<open>iteratedVonNeumann\<close> is the sum of the lengths of \<open>xorProcessing\<close>,
  \<open>vonNeumannProcessing\<close> and \<open>residualProcessing\<close> of the same input.
\<close>

theorem cascade_length:
  "is_bits data \<Longrightarrow>
     length (iteratedVonNeumann data) =
       length (xorProcessing data) + length (vonNeumannProcessing data)
         + length (residualProcessing data)"
proof (induction data rule: pairs_of.induct)
  case (1 a b rest)
  then have ab: "is_bit a" "is_bit b" and rest: "is_bits rest"
    by (simp_all add: is_bits_def)
  from bit_pair_lengths [OF ab] 1 rest show ?case
    by (simp add: ivn_pair xor_pair vn_pair sr_pair length_xor_rule)
qed (simp_all add: ivn_short xor_short vn_short sr_short)

theorem cascade_length_witness:
  "is_bits ''01101'' \<and>
   length (iteratedVonNeumann ''01101'') =
     length (xorProcessing ''01101'') + length (vonNeumannProcessing ''01101'')
       + length (residualProcessing ''01101'') \<and>
   iteratedVonNeumann ''01101'' = ''1101''"
proof -
  have h: "is_bits ''01101''"
    by (simp add: is_bits_def is_bit_def)
  have "iteratedVonNeumann ''01101'' = ''1101''"
    by (simp add: ivn_pair ivn_short ivn_rule_def ivn_bits_def append_if_set_def)
  with h cascade_length [OF h] show ?thesis by simp
qed

text \<open>
  Claim C6. The cascade handles the pairs in input order: what it gives for a bit sequence
  that starts with the pair \<open>a b\<close> is the svn bit of the pair (if any), then its sxor
  bit, then its sr bit (if any), followed by the cascade of the rest. The pair contributes
  one or two bits, and never both an svn and an sr bit. A single character or the empty
  input gives nothing. For the input \<open>0011\<close>: SVN is empty, SXOR is \<open>00\<close>, SR is
  \<open>01\<close> and the cascade is \<open>0001\<close>.
\<close>

theorem cascade_pair_order:
  "(is_bit a \<and> is_bit b \<longrightarrow>
      iteratedVonNeumann (a # b # rest) =
        vonNeumannProcessing [a, b] @ xorProcessing [a, b] @ residualProcessing [a, b]
          @ iteratedVonNeumann rest
      \<and> length (vonNeumannProcessing [a, b]) \<le> 1
      \<and> length (xorProcessing [a, b]) = 1
      \<and> length (residualProcessing [a, b]) \<le> 1
      \<and> length (iteratedVonNeumann [a, b]) \<in> {1, 2}
      \<and> (vonNeumannProcessing [a, b] = [] \<or> residualProcessing [a, b] = []))
   \<and> iteratedVonNeumann [] = []
   \<and> iteratedVonNeumann [c] = []
   \<and> vonNeumannProcessing ''0011'' = ''''
   \<and> xorProcessing ''0011'' = ''00''
   \<and> residualProcessing ''0011'' = ''01''
   \<and> iteratedVonNeumann ''0011'' = ''0001''"
proof -
  have pair: "iteratedVonNeumann (a # b # rest) =
        vonNeumannProcessing [a, b] @ xorProcessing [a, b] @ residualProcessing [a, b]
          @ iteratedVonNeumann rest
      \<and> length (vonNeumannProcessing [a, b]) \<le> 1
      \<and> length (xorProcessing [a, b]) = 1
      \<and> length (residualProcessing [a, b]) \<le> 1
      \<and> length (iteratedVonNeumann [a, b]) \<in> {1, 2}
      \<and> (vonNeumannProcessing [a, b] = [] \<or> residualProcessing [a, b] = [])"
    if "is_bit a" "is_bit b"
    using that
    by (rule bit_pair_cases)
       (simp_all add: ivn_pair vn_pair xor_pair sr_pair ivn_short vn_short xor_short sr_short
          ivn_rule_def ivn_bits_def append_if_set_def vn_rule_def xor_rule_def sr_rule_def)
  have ex: "vonNeumannProcessing ''0011'' = []" "xorProcessing ''0011'' = ''00''"
    "residualProcessing ''0011'' = ''01''" "iteratedVonNeumann ''0011'' = ''0001''"
    by (simp_all add: ivn_pair vn_pair xor_pair sr_pair ivn_short vn_short xor_short sr_short
          ivn_rule_def ivn_bits_def append_if_set_def vn_rule_def xor_rule_def sr_rule_def)
  from pair ex show ?thesis
    by (simp only: ivn_short) blast
qed

theorem cascade_pair_order_witness:
  "is_bit CHR ''0'' \<and> is_bit CHR ''1'' \<and>
   iteratedVonNeumann ''0111'' =
     vonNeumannProcessing ''01'' @ xorProcessing ''01'' @ residualProcessing ''01''
       @ iteratedVonNeumann ''11'' \<and>
   iteratedVonNeumann ''0111'' = ''1101'' \<and>
   vonNeumannProcessing ''01'' = ''1'' \<and> residualProcessing ''01'' = []"
proof -
  have h: "is_bit CHR ''0'' \<and> is_bit CHR ''1''"
    by (simp add: is_bit_def)
  have "iteratedVonNeumann ''0111'' = ''1101''"
    by (simp add: ivn_pair ivn_short ivn_rule_def ivn_bits_def append_if_set_def)
  moreover have "vonNeumannProcessing ''01'' = ''1''" "residualProcessing ''01'' = []"
    by (simp_all add: vn_pair vn_short vn_rule_def sr_pair sr_short sr_rule_def)
  ultimately show ?thesis
    using h cascade_pair_order [of "CHR ''0''" "CHR ''1''" "''11''"] by simp
qed

text \<open>
  Claim C7. \<open>vonNeumannProcessing\<close> maps the pair \<open>10\<close> to \<open>0\<close> and the pair \<open>01\<close>
  to \<open>1\<close>, gives nothing for \<open>00\<close> and \<open>11\<close>, and goes on with the rest of the input
  in order; a last bit without a partner (an input of odd length) adds nothing.
\<close>

theorem vonNeumann_pair_rule:
  "vonNeumannProcessing (''10'' @ rest) = ''0'' @ vonNeumannProcessing rest
   \<and> vonNeumannProcessing (''01'' @ rest) = ''1'' @ vonNeumannProcessing rest
   \<and> vonNeumannProcessing (''00'' @ rest) = vonNeumannProcessing rest
   \<and> vonNeumannProcessing (''11'' @ rest) = vonNeumannProcessing rest
   \<and> vonNeumannProcessing [] = []
   \<and> (even (length data) \<longrightarrow>
        vonNeumannProcessing (data @ [c]) = vonNeumannProcessing data)"
  by (simp add: vn_pair vn_short vn_rule_def vonNeumannProcessing_pairs [of "data @ [c]"]
        vonNeumannProcessing_pairs [of data] pairs_of_trailing)

theorem vonNeumann_pair_rule_witness:
  "even (length ''1001'') \<and>
   vonNeumannProcessing (''1001'' @ ''1'') = vonNeumannProcessing ''1001'' \<and>
   vonNeumannProcessing ''1001'' = ''01''"
proof -
  have "vonNeumannProcessing ''1001'' = ''01''"
    by (simp add: vn_pair vn_short vn_rule_def)
  then show ?thesis
    using vonNeumann_pair_rule [of "[]" "''1001''" "CHR ''1''"] by simp
qed

text \<open>
  Claim C8. \<open>xorProcessing\<close> gives one bit for every pair of the input, \<open>1\<close> when the
  two bits differ and \<open>0\<close> when they agree, so its length is half the length of the
  input, rounded down.
\<close>

theorem xor_one_bit_per_pair:
  "length (xorProcessing data) = length data div 2
   \<and> (is_bit a \<and> is_bit b \<longrightarrow>
        xorProcessing (a # b # rest) =
          (if a \<noteq> b then CHR ''1'' else CHR ''0'') # xorProcessing rest)"
proof -
  have "xorProcessing (a # b # rest) =
          (if a \<noteq> b then CHR ''1'' else CHR ''0'') # xorProcessing rest"
    if "is_bit a" "is_bit b"
    using that by (rule bit_pair_cases) (simp_all add: xor_pair xor_rule_def)
  then show ?thesis
    by (simp add: length_xorProcessing)
qed

theorem xor_one_bit_per_pair_witness:
  "is_bit CHR ''1'' \<and> is_bit CHR ''0'' \<and>
   xorProcessing ''10110'' = ''10'' \<and> length (xorProcessing ''10110'') = 5 div 2"
proof -
  have h: "is_bit CHR ''1'' \<and> is_bit CHR ''0''"
    by (simp add: is_bit_def)
  have "xorProcessing ''110'' = ''0''"
    by (simp add: xor_pair xor_short xor_rule_def)
  then show ?thesis
    using h xor_one_bit_per_pair [of "''10110''" "CHR ''1''" "CHR ''0''" "''110''"] by simp
qed

text \<open>
  Claim C9. \<open>residualProcessing\<close> maps the pair \<open>11\<close> to \<open>1\<close> and the pair \<open>00\<close> to
  \<open>0\<close> and gives nothing for \<open>01\<close> and \<open>10\<close>; the lengths of SVN and SR together
  are at most half the length of the input, and no pair gives a bit to both.
\<close>

theorem residual_pair_rule:
  "residualProcessing (''11'' @ rest) = ''1'' @ residualProcessing rest
   \<and> residualProcessing (''00'' @ rest) = ''0'' @ residualProcessing rest
   \<and> residualProcessing (''01'' @ rest) = residualProcessing rest
   \<and> residualProcessing (''10'' @ rest) = residualProcessing rest
   \<and> residualProcessing [] = []
   \<and> length (vonNeumannProcessing data) + length (residualProcessing data)
        \<le> length data div 2
   \<and> (vonNeumannProcessing [a, b] = [] \<or> residualProcessing [a, b] = [])"
proof -
  have "length (vonNeumannProcessing data) + length (residualProcessing data)
          \<le> length data div 2"
  proof (induction data rule: pairs_of.induct)
    case (1 a b rest)
    with length_vn_sr_le [of "[a, b]"] show ?case
      by (simp add: vn_pair sr_pair)
  qed (simp_all add: vn_short sr_short)
  moreover have "vonNeumannProcessing [a, b] = [] \<or> residualProcessing [a, b] = []"
    by (simp add: vn_pair vn_short sr_pair sr_short vn_rule_def sr_rule_def)
  ultimately show ?thesis
    by (simp add: sr_pair sr_short sr_rule_def)
qed

text \<open>
  Claim C10. For every string, \<open>xorProcessing\<close> gives \<open>0\<close> for a pair that is neither
  \<open>01\<close> nor \<open>10\<close>, whatever its characters, so its length is half the length of the
  input, rounded down; \<open>vonNeumannProcessing\<close> and \<open>residualProcessing\<close> give nothing
  for a pair that is none of \<open>00\<close>, \<open>01\<close>, \<open>10\<close>, \<open>11\<close>; and on a bit sequence
  the lengths of SVN and SR together are exactly half the length of the input, rounded
  down.
\<close>

theorem catch_all_pairs:
  "length (xorProcessing data) = length data div 2
   \<and> ([a, b] \<noteq> ''01'' \<and> [a, b] \<noteq> ''10'' \<longrightarrow>
        xorProcessing (a # b # rest) = CHR ''0'' # xorProcessing rest)
   \<and> ([a, b] \<notin> {''00'', ''01'', ''10'', ''11''} \<longrightarrow>
        vonNeumannProcessing (a # b # rest) = vonNeumannProcessing rest
        \<and> residualProcessing (a # b # rest) = residualProcessing rest)
   \<and> (is_bits data \<longrightarrow>
        length (vonNeumannProcessing data) + length (residualProcessing data)
          = length data div 2)"
proof -
  have "length (vonNeumannProcessing data) + length (residualProcessing data)
          = length data div 2" if "is_bits data"
    using that
  proof (induction data rule: pairs_of.induct)
    case (1 a b rest)
    then have ab: "is_bit a" "is_bit b" and rest: "is_bits rest"
      by (simp_all add: is_bits_def)
    from bit_pair_lengths(1) [OF ab] 1 rest show ?case
      by (simp add: vn_pair sr_pair)
  qed (simp_all add: vn_short sr_short)
  then show ?thesis
    by (simp add: length_xorProcessing xor_pair xor_rule_def vn_pair vn_rule_def
          sr_pair sr_rule_def)
qed

theorem catch_all_pairs_witness:
  "''a1'' \<noteq> ''01'' \<and> ''a1'' \<noteq> ''10'' \<and> ''a1'' \<notin> {''00'', ''01'', ''10'', ''11''} \<and>
   is_bits ''0110'' \<and>
   xorProcessing ''a101'' = ''01'' \<and>
   vonNeumannProcessing ''a101'' = ''1'' \<and>
   residualProcessing ''a101'' = [] \<and>
   length (vonNeumannProcessing ''0110'') + length (residualProcessing ''0110'') = 4 div 2"
proof -
  have h: "is_bits ''0110''"
    by (simp add: is_bits_def is_bit_def)
  have e: "xorProcessing ''01'' = ''1''" "vonNeumannProcessing ''01'' = ''1''"
    "residualProcessing ''01'' = []"
    by (simp_all add: xor_pair xor_short xor_rule_def vn_pair vn_short vn_rule_def
          sr_pair sr_short sr_rule_def)
  show ?thesis
    using h e catch_all_pairs [of "''0110''" "CHR ''a''" "CHR ''1''" "''01''"] by simp
qed

section \<open>The claims on trngMeasurementScriptV2.py\<close>

subsection \<open>The sampler\<close>

lemma length_np_diff: "length (np_diff a) = length a - 1"
  by (simp add: np_diff_def)

lemma nth_np_diff: "j < length a - 1 \<Longrightarrow> np_diff a ! j = a ! Suc j - a ! j"
  by (simp add: np_diff_def nth_tl)

lemma risingEdges_filter:
  "risingEdges clkBinary =
     filter (\<lambda>j. clkBinary ! Suc j - clkBinary ! j = 1) [0 ..< length clkBinary - 1]"
  unfolding risingEdges_def np_where_eq1_def length_np_diff
  by (rule filter_cong) (simp_all add: nth_np_diff)

lemma risingEdges_bound: "j \<in> set (risingEdges clkBinary) \<Longrightarrow> j < length clkBinary - 1"
  by (simp add: risingEdges_filter)

lemma edges_from_one:
  "filter (\<lambda>i. clkBinary ! i - clkBinary ! (i - 1) = 1) [1 ..< length clkBinary] =
     map Suc (risingEdges clkBinary)"
proof -
  have "[1 ..< length clkBinary] = map Suc [0 ..< length clkBinary - 1]"
    by (cases "length clkBinary") (simp_all add: map_Suc_upt del: upt_Suc)
  then show ?thesis
    by (simp add: risingEdges_filter filter_map comp_def)
qed

text \<open>
  Claim C1, as the code has it. For a clock and a data signal of the same length, the
  sampler gives one bit for every index \<open>i\<close> with \<open>1 \<le> i < n\<close> and
  \<open>clockBinary[i] - clockBinary[i-1] = 1\<close>, in ascending order of \<open>i\<close>, and this bit
  is \<open>dataBinary[i-1]\<close>, the data bit of the sample just before the edge:
  \<open>np.where(np.diff(clkBinary) == 1)\<close> gives the index \<open>i - 1\<close> for the edge at \<open>i\<close>.
\<close>

theorem sampler_reads_before_edge:
  assumes "length dataBinary = length clkBinary"
  shows "sampledBits clkBinary dataBinary =
           Inr (map (\<lambda>i. dataBinary ! (i - 1))
                  (filter (\<lambda>i. clkBinary ! i - clkBinary ! (i - 1) = 1)
                     [1 ..< length clkBinary]))"
proof -
  have "list_all (\<lambda>j. j < length dataBinary) (risingEdges clkBinary)"
    using assms by (auto simp: list_all_iff dest: risingEdges_bound)
  then show ?thesis
    unfolding sampledBits_def np_take_def edges_from_one by (simp add: comp_def)
qed

theorem sampler_reads_before_edge_witness:
  "length [1, 0, 1, 0 :: int] = length [0, 1, 0, 1 :: int] \<and>
   sampledBits [0, 1, 0, 1] [1, 0, 1, 0] = Inr [[1, 0, 1, 0] ! 0, [1, 0, 1, 0] ! 2]"
  using sampler_reads_before_edge [of "[1, 0, 1, 0]" "[0, 1, 0, 1]"]
  by (simp add: upt_rec)

text \<open>
  The example of claim C1: for the clock signal 0,1,0,1 and the data signal 1,0,1,0 the
  sampler gives data[0], data[2] = 1,1, not data[1], data[3] = 0,0.
\<close>

theorem sampler_example_counterexample:
  "sampledBits [0, 1, 0, 1] [1, 0, 1, 0] = Inr [1, 1] \<and>
   sampledBits [0, 1, 0, 1] [1, 0, 1, 0] \<noteq> Inr [0, 0]"
  by (simp add: sampledBits_def risingEdges_def np_where_eq1_def np_diff_def np_take_def upt_rec)

subsection \<open>Stop conditions\<close>

text \<open>
  In the two modes the script documents, whether the loop breaks depends on the duration
  or on the count only; the time of the last signal is not read.
\<close>

lemma stop_in_time_mode:
  "fst (stopConditions ''time'' durationSeconds totalSamples no_signal statusInterval
          timeStatusInterval startTime t_elapsed t_check collected ls)
     = (durationSeconds \<le> t_elapsed - startTime)"
  by (simp add: stopConditions_def Let_def)

lemma stop_in_samples_mode:
  "fst (stopConditions ''samples'' durationSeconds totalSamples no_signal statusInterval
          timeStatusInterval startTime t_elapsed t_check collected ls)
     = (totalSamples \<le> collected)"
  by (simp add: stopConditions_def Let_def)

text \<open>
  Claim C2 at a concrete check: 5 seconds after the start, with the last signal seen at
  the start and a no-signal threshold of 3 seconds, the loop does not break in the mode
  \<open>time\<close> (10 seconds asked) nor in the mode \<open>samples\<close> (none of 10000000 collected).
  The no-signal test is the last \<open>elif\<close> of the chain, so it is reached only with a mode
  that is neither of the two; there the same check breaks the loop. A session in the mode
  \<open>time\<close> whose buffers stay all zero is still running after the passes at 4 and 5
  seconds.
\<close>

theorem timeout_unreachable_in_both_modes:
  "stopConditions ''time'' 10 10000000 3 10000 5 0 5 5 0
     \<lparr>lastStatusUpdate = 0, lastTimeUpdate = 0, lastSignalTime = 0\<rparr>
   = (False, \<lparr>lastStatusUpdate = 0, lastTimeUpdate = 5, lastSignalTime = 0\<rparr>)
   \<and> stopConditions ''samples'' 10 10000000 3 10000 5 0 5 5 0
     \<lparr>lastStatusUpdate = 0, lastTimeUpdate = 0, lastSignalTime = 0\<rparr>
   = (False, \<lparr>lastStatusUpdate = 0, lastTimeUpdate = 0, lastSignalTime = 0\<rparr>)
   \<and> stopConditions ''neither'' 10 10000000 3 10000 5 0 5 5 0
     \<lparr>lastStatusUpdate = 0, lastTimeUpdate = 0, lastSignalTime = 0\<rparr>
   = (True, \<lparr>lastStatusUpdate = 0, lastTimeUpdate = 0, lastSignalTime = 0\<rparr>)
   \<and> collectData (streamingCallback (3 / 2) 2 5 10000000 ''time'' False)
       ''time'' 10 10000000 3 10000 5 0 0
       [\<lparr>deliveries = [], time_signal = 4, time_elapsed = 4, time_check = 4\<rparr>,
        \<lparr>deliveries = [], time_signal = 5, time_elapsed = 5, time_check = 5\<rparr>]
       \<lparr>bufferClock = [0, 0], bufferData = [0, 0], samplesCollected = 0, outputFile = []\<rparr>
   = Running \<lparr>lastStatusUpdate = 0, lastTimeUpdate = 5, lastSignalTime = 0\<rparr>
       \<lparr>bufferClock = [0, 0], bufferData = [0, 0], samplesCollected = 0, outputFile = []\<rparr>"
  by (simp add: stopConditions_def collectData_def loopPass_def signalDetected_def)

subsection \<open>Truncation to the cap\<close>

lemma length_py_slice_to: "0 \<le> k \<Longrightarrow> int (length (py_slice_to xs k)) \<le> k"
  by (simp add: py_slice_to_def)

lemma length_written: "length (concat (map py_str bits)) = length bits"
  by (induction bits) (simp_all add: py_str_def)

text \<open>What a call that returns has done to the globals, in the mode \<open>samples\<close>.\<close>

lemma callback_samples_step:
  assumes "samplesCollected g \<le> totalSamples"
    and "streamingCallback thresholdClock thresholdData VOLTAGE_RANGE totalSamples ''samples''
           useX10Probe noOfSamples overflow g = Inr g'"
  shows "\<exists>new. outputFile g' = outputFile g @ new
           \<and> int (length new) \<le> totalSamples - samplesCollected g
           \<and> samplesCollected g' = samplesCollected g + int (length new)"
proof (cases "overflow = 0")
  case False
  with assms have "g' = g"
    by (simp add: streamingCallback_def)
  with assms(1) show ?thesis by simp
next
  case True
  from assms(1) have k: "0 \<le> totalSamples - samplesCollected g" by simp
  from True assms(2) obtain bits where
    g': "g' = g\<lparr>outputFile := outputFile g
                  @ concat (map py_str (py_slice_to bits (totalSamples - samplesCollected g))),
               samplesCollected := samplesCollected g
                  + int (length (py_slice_to bits (totalSamples - samplesCollected g)))\<rparr>"
    by (auto simp: streamingCallback_def Let_def split: sum.splits)
  show ?thesis
    using length_py_slice_to [OF k, of bits]
    by (intro exI [of _ "concat (map py_str (py_slice_to bits (totalSamples - samplesCollected g)))"])
       (simp add: g' length_written)
qed

lemma within_cap_buffers:
  "within_cap totalSamples (g\<lparr>bufferClock := c, bufferData := d\<rparr>) = within_cap totalSamples g"
  by (simp add: within_cap_def)

lemma callback_within_cap:
  assumes "within_cap totalSamples g"
    and "streamingCallback thresholdClock thresholdData VOLTAGE_RANGE totalSamples ''samples''
           useX10Probe noOfSamples overflow g = Inr g'"
  shows "within_cap totalSamples g'"
proof -
  from assms(1) have "samplesCollected g \<le> totalSamples"
    by (simp add: within_cap_def)
  from callback_samples_step [OF this assms(2)] assms(1) show ?thesis
    by (auto simp: within_cap_def)
qed

lemma deliver_within_cap:
  assumes "within_cap totalSamples g"
  shows "within_cap totalSamples
           (deliver (streamingCallback thresholdClock thresholdData VOLTAGE_RANGE totalSamples
                       ''samples'' useX10Probe) g d)"
proof -
  let ?g1 = "g\<lparr>bufferClock := new_bufferClock d, bufferData := new_bufferData d\<rparr>"
  have g1: "within_cap totalSamples ?g1"
    using assms by (simp only: within_cap_buffers)
  show ?thesis
  proof (cases "streamingCallback thresholdClock thresholdData VOLTAGE_RANGE totalSamples
                  ''samples'' useX10Probe (cb_noOfSamples d) (cb_overflow d) ?g1")
    case (Inl e)
    with g1 show ?thesis by (simp add: deliver_def)
  next
    case (Inr g2)
    with callback_within_cap [OF g1 Inr] show ?thesis by (simp add: deliver_def)
  qed
qed

lemma deliveries_within_cap:
  "within_cap totalSamples g \<Longrightarrow>
     within_cap totalSamples
       (foldl (deliver (streamingCallback thresholdClock thresholdData VOLTAGE_RANGE totalSamples
                          ''samples'' useX10Probe)) g ds)"
  by (induction ds arbitrary: g) (simp_all add: deliver_within_cap)

lemma loopPass_globals:
  "snd (snd (loopPass cb mode durationSeconds target no_signal statusInterval
               timeStatusInterval startTime p ls g)) = foldl (deliver cb) g (deliveries p)"
  by (simp add: loopPass_def Let_def split: prod.split)

lemma collectLoop_within_cap:
  "within_cap totalSamples g \<Longrightarrow>
     within_cap totalSamples
       (globals_of
          (collectLoop (streamingCallback thresholdClock thresholdData VOLTAGE_RANGE totalSamples
                          ''samples'' useX10Probe)
             mode durationSeconds target no_signal statusInterval timeStatusInterval startTime
             polls ls g))"
proof (induction polls arbitrary: ls g)
  case Nil
  then show ?case by simp
next
  case (Cons p ps)
  let ?cb = "streamingCallback thresholdClock thresholdData VOLTAGE_RANGE totalSamples
               ''samples'' useX10Probe"
  obtain stop ls' g' where
    pass: "loopPass ?cb mode durationSeconds target no_signal statusInterval
             timeStatusInterval startTime p ls g = (stop, ls', g')"
    by (cases "loopPass ?cb mode durationSeconds target no_signal statusInterval
                 timeStatusInterval startTime p ls g") auto
  have "g' = foldl (deliver ?cb) g (deliveries p)"
    using loopPass_globals [of ?cb mode durationSeconds target no_signal statusInterval
        timeStatusInterval startTime p ls g] pass by simp
  with Cons.prems have "within_cap totalSamples g'"
    by (simp add: deliveries_within_cap)
  with Cons.IH [of g' ls'] pass show ?case by simp
qed

text \<open>
  A cap below zero is outside the invariant: \<open>sampledBits[:remainingSamples]\<close> with
  \<open>remainingSamples = -1\<close> keeps all bits but the last.
\<close>

lemma negative_cap_slice:
  "streamingCallback (3 / 2) 2 5 (- 1) ''samples'' False 4 0
     \<lparr>bufferClock = [0, 32767, 0, 32767], bufferData = [32767, 0, 32767, 0],
      samplesCollected = 0, outputFile = []\<rparr>
   = Inr \<lparr>bufferClock = [0, 32767, 0, 32767], bufferData = [32767, 0, 32767, 0],
          samplesCollected = 1, outputFile = ''1''\<rparr>"
proof -
  have "sampledBits [0, 1, 0, 1] [1, 0, 1, 0] = Inr [1, 1]"
    by (simp add: sampledBits_def risingEdges_def np_where_eq1_def np_diff_def np_take_def upt_rec)
  then show ?thesis
    by (simp add: streamingCallback_def py_slice_to_def to_volts_def binarize_def py_str_def)
qed

text \<open>
  Claim C3. In the mode \<open>samples\<close>, with a cap \<open>totalSamples\<close> that is not negative
  and the counter at 0 when the session starts, after every trace of the environment
  \<open>samplesCollected\<close> is at most \<open>totalSamples\<close> and is the length of the output file;
  and every call of the callback that starts within the cap appends at most
  \<open>totalSamples - samplesCollected\<close> bits and adds their number to the counter.
\<close>

theorem samples_mode_never_exceeds_cap:
  assumes "0 \<le> totalSamples" and "samplesCollected g = 0"
  shows "samplesCollected
           (globals_of
              (collectData (streamingCallback thresholdClock thresholdData VOLTAGE_RANGE
                              totalSamples ''samples'' useX10Probe)
                 mode durationSeconds target no_signal statusInterval timeStatusInterval
                 startTime firstSignalTime polls g)) \<le> totalSamples
         \<and> int (length (outputFile
              (globals_of
                 (collectData (streamingCallback thresholdClock thresholdData VOLTAGE_RANGE
                                 totalSamples ''samples'' useX10Probe)
                    mode durationSeconds target no_signal statusInterval timeStatusInterval
                    startTime firstSignalTime polls g))))
           = samplesCollected
              (globals_of
                 (collectData (streamingCallback thresholdClock thresholdData VOLTAGE_RANGE
                                 totalSamples ''samples'' useX10Probe)
                    mode durationSeconds target no_signal statusInterval timeStatusInterval
                    startTime firstSignalTime polls g))
         \<and> (\<forall>g0 g1 noOfSamples overflow.
               samplesCollected g0 \<le> totalSamples \<and>
               streamingCallback thresholdClock thresholdData VOLTAGE_RANGE totalSamples
                 ''samples'' useX10Probe noOfSamples overflow g0 = Inr g1
               \<longrightarrow> (\<exists>new. outputFile g1 = outputFile g0 @ new
                      \<and> int (length new) \<le> totalSamples - samplesCollected g0
                      \<and> samplesCollected g1 = samplesCollected g0 + int (length new)))"
proof -
  have "within_cap totalSamples (g\<lparr>outputFile := []\<rparr>)"
    using assms by (simp add: within_cap_def)
  then have "within_cap totalSamples
      (globals_of
         (collectData (streamingCallback thresholdClock thresholdData VOLTAGE_RANGE
                         totalSamples ''samples'' useX10Probe)
            mode durationSeconds target no_signal statusInterval timeStatusInterval
            startTime firstSignalTime polls g))"
    unfolding collectData_def by (rule collectLoop_within_cap)
  then show ?thesis
    using callback_samples_step by (simp add: within_cap_def) blast
qed

theorem samples_mode_never_exceeds_cap_witness:
  "(0::int) \<le> 1 \<and>
   samplesCollected \<lparr>bufferClock = [], bufferData = [], samplesCollected = 0,
                      outputFile = ''old''\<rparr> = 0 \<and>
   globals_of
     (collectData (streamingCallback (3 / 2) 2 5 1 ''samples'' False)
        ''samples'' 10 1 3 10000 5 0 0
        [\<lparr>deliveries =
            [\<lparr>new_bufferClock = [0, 32767, 0, 32767], new_bufferData = [32767, 0, 32767, 0],
              cb_noOfSamples = 4, cb_overflow = 0\<rparr>],
          time_signal = 1, time_elapsed = 1, time_check = 1\<rparr>]
        \<lparr>bufferClock = [], bufferData = [], samplesCollected = 0, outputFile = ''old''\<rparr>)
   = \<lparr>bufferClock = [0, 32767, 0, 32767], bufferData = [32767, 0, 32767, 0],
      samplesCollected = 1, outputFile = ''1''\<rparr>"
proof -
  have e: "sampledBits [0, 1, 0, 1] [1, 0, 1, 0] = Inr [1, 1]"
    by (simp add: sampledBits_def risingEdges_def np_where_eq1_def np_diff_def np_take_def upt_rec)
  have run: "globals_of
     (collectData (streamingCallback (3 / 2) 2 5 1 ''samples'' False)
        ''samples'' 10 1 3 10000 5 0 0
        [\<lparr>deliveries =
            [\<lparr>new_bufferClock = [0, 32767, 0, 32767], new_bufferData = [32767, 0, 32767, 0],
              cb_noOfSamples = 4, cb_overflow = 0\<rparr>],
          time_signal = 1, time_elapsed = 1, time_check = 1\<rparr>]
        \<lparr>bufferClock = [], bufferData = [], samplesCollected = 0, outputFile = ''old''\<rparr>)
   = \<lparr>bufferClock = [0, 32767, 0, 32767], bufferData = [32767, 0, 32767, 0],
      samplesCollected = 1, outputFile = ''1''\<rparr>"
    by (simp add: collectData_def loopPass_def deliver_def streamingCallback_def
          py_slice_to_def to_volts_def binarize_def e py_str_def stopConditions_def
          signalDetected_def)
  show ?thesis
    using run
      samples_mode_never_exceeds_cap [
        where totalSamples = 1
          and g = "\<lparr>bufferClock = [], bufferData = [], samplesCollected = 0,
                    outputFile = ''old''\<rparr>"
          and thresholdClock = "3 / 2" and thresholdData = 2 and VOLTAGE_RANGE = 5
          and useX10Probe = False and mode = "''samples''" and durationSeconds = 10
          and target = 1 and no_signal = 3 and statusInterval = 10000
          and timeStatusInterval = 5 and startTime = 0 and firstSignalTime = 0
          and polls =
            "[\<lparr>deliveries =
                 [\<lparr>new_bufferClock = [0, 32767, 0, 32767],
                   new_bufferData = [32767, 0, 32767, 0],
                   cb_noOfSamples = 4, cb_overflow = 0\<rparr>],
               time_signal = 1, time_elapsed = 1, time_check = 1\<rparr>]"]
    by simp
qed

subsection \<open>Overflow\<close>

text \<open>
  Claim C4. A call of the callback with the overflow flag set returns without an error
  and leaves the globals as they are: no bit is written and \<open>samplesCollected\<close> is
  unchanged. A pass of the loop in which the driver delivers such a batch decides, and
  leaves the locals and globals, exactly as a pass in which the driver has written the
  same buffers and the callback is not called: the overflow alone does not stop the
  session.
\<close>

theorem overflow_batch_is_dropped:
  assumes "overflow \<noteq> 0"
  shows "streamingCallback thresholdClock thresholdData VOLTAGE_RANGE totalSamples captureMode
           useX10Probe noOfSamples overflow g = Inr g
         \<and> loopPass (streamingCallback thresholdClock thresholdData VOLTAGE_RANGE totalSamples
                       captureMode useX10Probe)
             mode durationSeconds target no_signal statusInterval timeStatusInterval startTime
             (p\<lparr>deliveries := [\<lparr>new_bufferClock = c, new_bufferData = d,
                                  cb_noOfSamples = noOfSamples, cb_overflow = overflow\<rparr>]\<rparr>)
             ls g
           = loopPass (streamingCallback thresholdClock thresholdData VOLTAGE_RANGE totalSamples
                         captureMode useX10Probe)
               mode durationSeconds target no_signal statusInterval timeStatusInterval startTime
               (p\<lparr>deliveries := []\<rparr>) ls (g\<lparr>bufferClock := c, bufferData := d\<rparr>)"
proof -
  have cb: "streamingCallback thresholdClock thresholdData VOLTAGE_RANGE totalSamples
              captureMode useX10Probe noOfSamples overflow g' = Inr g'" for g'
    using assms by (simp add: streamingCallback_def)
  then show ?thesis
    by (simp add: loopPass_def deliver_def Let_def)
qed

theorem overflow_batch_is_dropped_witness:
  "(1::int) \<noteq> 0 \<and>
   streamingCallback (3 / 2) 2 5 10 ''samples'' False 4 1
     \<lparr>bufferClock = [0, 32767, 0, 32767], bufferData = [32767, 0, 32767, 0],
      samplesCollected = 3, outputFile = ''101''\<rparr>
   = Inr \<lparr>bufferClock = [0, 32767, 0, 32767], bufferData = [32767, 0, 32767, 0],
          samplesCollected = 3, outputFile = ''101''\<rparr> \<and>
   loopPass (streamingCallback (3 / 2) 2 5 10 ''samples'' False)
     ''samples'' 10 10 3 10000 5 0
     \<lparr>deliveries = [\<lparr>new_bufferClock = [0, 32767, 0, 32767],
                      new_bufferData = [32767, 0, 32767, 0],
                      cb_noOfSamples = 4, cb_overflow = 1\<rparr>],
      time_signal = 1, time_elapsed = 1, time_check = 1\<rparr>
     \<lparr>lastStatusUpdate = 0, lastTimeUpdate = 0, lastSignalTime = 0\<rparr>
     \<lparr>bufferClock = [], bufferData = [], samplesCollected = 3, outputFile = ''101''\<rparr>
   = (False, \<lparr>lastStatusUpdate = 0, lastTimeUpdate = 0, lastSignalTime = 1\<rparr>,
      \<lparr>bufferClock = [0, 32767, 0, 32767], bufferData = [32767, 0, 32767, 0],
       samplesCollected = 3, outputFile = ''101''\<rparr>)"
proof -
  have h: "(1::int) \<noteq> 0" by simp
  have pass: "loopPass (streamingCallback (3 / 2) 2 5 10 ''samples'' False)
     ''samples'' 10 10 3 10000 5 0
     \<lparr>deliveries = [], time_signal = 1, time_elapsed = 1, time_check = 1\<rparr>
     \<lparr>lastStatusUpdate = 0, lastTimeUpdate = 0, lastSignalTime = 0\<rparr>
     \<lparr>bufferClock = [0, 32767, 0, 32767], bufferData = [32767, 0, 32767, 0],
      samplesCollected = 3, outputFile = ''101''\<rparr>
   = (False, \<lparr>lastStatusUpdate = 0, lastTimeUpdate = 0, lastSignalTime = 1\<rparr>,
      \<lparr>bufferClock = [0, 32767, 0, 32767], bufferData = [32767, 0, 32767, 0],
       samplesCollected = 3, outputFile = ''101''\<rparr>)"
    by (simp add: loopPass_def stopConditions_def signalDetected_def)
  show ?thesis
    using h pass
      overflow_batch_is_dropped [OF h,
        where thresholdClock = "3 / 2" and thresholdData = 2 and VOLTAGE_RANGE = 5
          and totalSamples = 10 and captureMode = "''samples''" and useX10Probe = False
          and noOfSamples = 4
          and g = "\<lparr>bufferClock = [0, 32767, 0, 32767], bufferData = [32767, 0, 32767, 0],
                    samplesCollected = 3, outputFile = ''101''\<rparr>"]
      overflow_batch_is_dropped [OF h,
        where thresholdClock = "3 / 2" and thresholdData = 2 and VOLTAGE_RANGE = 5
          and totalSamples = 10 and captureMode = "''samples''" and useX10Probe = False
          and noOfSamples = 4
          and g = "\<lparr>bufferClock = [], bufferData = [], samplesCollected = 3,
                    outputFile = ''101''\<rparr>"
          and mode = "''samples''" and durationSeconds = 10 and target = 10 and no_signal = 3
          and statusInterval = 10000 and timeStatusInterval = 5 and startTime = 0
          and p = "\<lparr>deliveries = [], time_signal = 1, time_elapsed = 1, time_check = 1\<rparr>"
          and c = "[0, 32767, 0, 32767]" and d = "[32767, 0, 32767, 0]"
          and ls = "\<lparr>lastStatusUpdate = 0, lastTimeUpdate = 0, lastSignalTime = 0\<rparr>"]
    by simp
qed

end
